theory Spec2Isabelle
  imports Main "HOL-Library.Multiset" "HOL-Library.Sublist"
    "HOL-Library.Char_ord" "HOL-Library.List_Lexorder"
begin

section \<open>The ranking script \<^verbatim>\<open>scripts/make-top10.js\<close>\<close>

subsection \<open>Data\<close>

text \<open>
  One business as \<^verbatim>\<open>parseCurrentBusinesses\<close> pushes it and as the JSON snapshot of the
  last run holds it: \<^verbatim>\<open>{ id, la, type }\<close>. The authority may be absent from a record read
  back from JSON (\<open>None\<close>) or be the empty string; the script treats both as falsy.
\<close>

record business =
  id_b :: string
  la :: "string option"
  type :: string

text \<open>
  One row of a ranking: \<^verbatim>\<open>{ la, delta, current }\<close>. The counts are JavaScript numbers
  that start at 0 and grow by 1 for each business, so they are natural numbers, exact far
  beyond the length of any array; a delta is a difference of two counts, an integer.
\<close>

record row =
  la :: string
  delta :: int
  current :: nat

text \<open>The value \<^verbatim>\<open>top10\<close> returns: \<^verbatim>\<open>{ growth, reductions }\<close>.\<close>

record ranking =
  growth :: "row list"
  reductions :: "row list"

text \<open>The labels of the constant \<^verbatim>\<open>SECTORS\<close>.\<close>

definition MOBILE :: string where
  "MOBILE = ''Mobile caterer''"

definition RESTAURANT_CAFE :: string where
  "RESTAURANT_CAFE = ''Restaurant/Cafe/Canteen''"

definition PUB_BAR :: string where
  "PUB_BAR = ''Pub/bar/nightclub''"

definition TAKEAWAY :: string where
  "TAKEAWAY = ''Takeaway/sandwich shop''"

definition SECTORS :: "(string \<times> string) list" where
  "SECTORS = [(''MOBILE'', MOBILE), (''RESTAURANT_CAFE'', RESTAURANT_CAFE),
              (''PUB_BAR'', PUB_BAR), (''TAKEAWAY'', TAKEAWAY)]"

subsection \<open>The JavaScript containers the script uses\<close>

text \<open>
  A JavaScript \<^verbatim>\<open>Map\<close> iterates in insertion order, so it is an association list with
  distinct keys: \<^verbatim>\<open>m.set(k, v)\<close> overwrites the value of a key that is present, in place,
  and appends a key that is new.
\<close>

type_synonym la_map = "(string \<times> nat) list"

fun map_set :: "la_map \<Rightarrow> string \<Rightarrow> nat \<Rightarrow> la_map" where
  "map_set [] k v = [(k, v)]"
| "map_set ((k', v') # m) k v =
     (if k' = k then (k', v) # m else (k', v') # map_set m k v)"

definition map_get :: "la_map \<Rightarrow> string \<Rightarrow> nat option" where
  "map_get m k = map_of m k"

definition keys :: "la_map \<Rightarrow> string list" where
  "keys m = map fst m"

text \<open>\<^verbatim>\<open>m.get(k) || 0\<close>: a missing key (\<^verbatim>\<open>undefined\<close>) and a stored 0 both give 0.\<close>

definition get_or0 :: "la_map \<Rightarrow> string \<Rightarrow> nat" where
  "get_or0 m k = (case map_get m k of None \<Rightarrow> 0 | Some v \<Rightarrow> v)"

text \<open>
  \<^verbatim>\<open>new Set(xs)\<close> adds the elements from left to right; an element already present is
  skipped, so the set keeps the order of the first occurrences.
\<close>

definition set_add :: "string list \<Rightarrow> string \<Rightarrow> string list" where
  "set_add s x = (if x \<in> set s then s else s @ [x])"

definition new_Set :: "string list \<Rightarrow> string list" where
  "new_Set xs = fold (\<lambda>x s. set_add s x) xs []"

text \<open>
  \<^verbatim>\<open>Array.prototype.sort(cmp)\<close> is stable: it orders by the comparator and keeps
  elements that compare equal in their order. With a consistent comparator every stable
  sort returns the same array; insertion from the right is one.
\<close>

fun insert_cmp :: "('a \<Rightarrow> 'a \<Rightarrow> int) \<Rightarrow> 'a \<Rightarrow> 'a list \<Rightarrow> 'a list" where
  "insert_cmp cmp x [] = [x]"
| "insert_cmp cmp x (y # ys) =
     (if cmp x y \<le> 0 then x # y # ys else y # insert_cmp cmp x ys)"

definition js_sort :: "('a \<Rightarrow> 'a \<Rightarrow> int) \<Rightarrow> 'a list \<Rightarrow> 'a list" where
  "js_sort cmp xs = foldr (insert_cmp cmp) xs []"

text \<open>\<^verbatim>\<open>xs.slice(0, n)\<close>.\<close>

definition slice0 :: "nat \<Rightarrow> 'a list \<Rightarrow> 'a list" where
  "slice0 n xs = take n xs"

subsection \<open>\<^verbatim>\<open>readJSONSafe\<close>\<close>

text \<open>
  What \<^verbatim>\<open>JSON.parse(fs.readFileSync(p, "utf8"))\<close> can do: throw because the file cannot
  be read, throw because its text is not JSON, or return the parsed value.
\<close>

datatype read_error = FileUnreadable | JSONSyntaxError

definition readJSONSafe :: "read_error + 'a \<Rightarrow> 'a \<Rightarrow> 'a" where
  "readJSONSafe r fallback = (case r of Inl e \<Rightarrow> fallback | Inr v \<Rightarrow> v)"

subsection \<open>\<^verbatim>\<open>byLA\<close>\<close>

text \<open>\<^verbatim>\<open>e.la || "Unknown"\<close>.\<close>

definition la_or_unknown :: "business \<Rightarrow> string" where
  "la_or_unknown e =
     (case business.la e of None \<Rightarrow> ''Unknown''
      | Some s \<Rightarrow> if s = [] then ''Unknown'' else s)"

text \<open>The loop of \<^verbatim>\<open>byLA\<close>, with the map \<^verbatim>\<open>m\<close> passed along.\<close>

fun byLA_loop :: "business list \<Rightarrow> string \<Rightarrow> la_map \<Rightarrow> la_map" where
  "byLA_loop [] wantedType m = m"
| "byLA_loop (e # es) wantedType m =
     (if type e \<noteq> wantedType then byLA_loop es wantedType m
      else byLA_loop es wantedType
             (map_set m (la_or_unknown e) (get_or0 m (la_or_unknown e) + 1)))"

definition byLA :: "business list \<Rightarrow> string \<Rightarrow> la_map" where
  "byLA items wantedType = byLA_loop items wantedType []"

subsection \<open>\<^verbatim>\<open>top10\<close>\<close>

text \<open>
  The constants \<^verbatim>\<open>las\<close> and \<^verbatim>\<open>rows\<close> of \<^verbatim>\<open>top10\<close>. The parameter \<^verbatim>\<open>curr\<close> of the
  script is written \<open>cur\<close> here, \<open>curr\<close> being a constant of the library.
\<close>

definition las :: "business list \<Rightarrow> business list \<Rightarrow> string \<Rightarrow> string list" where
  "las prev cur wantedType =
     new_Set (keys (byLA prev wantedType) @ keys (byLA cur wantedType))"

definition mk_row :: "la_map \<Rightarrow> la_map \<Rightarrow> string \<Rightarrow> row" where
  "mk_row p c a =
     \<lparr>row.la = a, delta = int (get_or0 c a) - int (get_or0 p a), current = get_or0 c a\<rparr>"

definition rows :: "business list \<Rightarrow> business list \<Rightarrow> string \<Rightarrow> row list" where
  "rows prev cur wantedType =
     map (mk_row (byLA prev wantedType) (byLA cur wantedType)) (las prev cur wantedType)"

definition top10 :: "business list \<Rightarrow> business list \<Rightarrow> string \<Rightarrow> ranking" where
  "top10 prev cur wantedType =
     \<lparr>growth =
        slice0 10 (js_sort (\<lambda>a b. delta b - delta a)
                     (filter (\<lambda>r. delta r > 0) (rows prev cur wantedType))),
      reductions =
        slice0 10 (js_sort (\<lambda>a b. delta a - delta b)
                     (filter (\<lambda>r. delta r < 0) (rows prev cur wantedType)))\<rparr>"

subsection \<open>The part of \<^verbatim>\<open>main\<close> that computes the rankings\<close>

text \<open>
  \<^verbatim>\<open>main\<close> reads the last snapshot with the fallback \<^verbatim>\<open>[]\<close> and ranks every sector of
  \<^verbatim>\<open>SECTORS\<close> against the businesses parsed now.
\<close>

definition by_sector ::
  "read_error + business list \<Rightarrow> business list \<Rightarrow> (string \<times> ranking) list" where
  "by_sector latest cur =
     (let prev = readJSONSafe latest []
      in map (\<lambda>(key, label). (key, top10 prev cur label)) SECTORS)"

section \<open>Auxiliary facts\<close>

subsection \<open>Maps and sets\<close>

lemma map_of_map_set: "map_of (map_set m k v) = (map_of m)(k \<mapsto> v)"
  by (induction m k v rule: map_set.induct) (auto simp: fun_upd_twist)

lemma keys_map_set: "keys (map_set m k v) = set_add (keys m) k"
  by (induction m k v rule: map_set.induct) (auto simp: keys_def set_add_def)

lemma get_or0_map_set: "get_or0 (map_set m k v) a = (if a = k then v else get_or0 m a)"
  by (simp add: get_or0_def map_get_def map_of_map_set)

lemma set_fold_set_add: "set (fold (\<lambda>x s. set_add s x) xs s) = set s \<union> set xs"
  by (induction xs arbitrary: s) (auto simp: set_add_def)

lemma distinct_fold_set_add: "distinct s \<Longrightarrow> distinct (fold (\<lambda>x s. set_add s x) xs s)"
  by (induction xs arbitrary: s) (auto simp: set_add_def)

lemma set_new_Set: "set (new_Set xs) = set xs"
  by (simp add: new_Set_def set_fold_set_add)

lemma distinct_new_Set: "distinct (new_Set xs)"
  by (simp add: new_Set_def distinct_fold_set_add)

lemma fold_set_add_distinct: "distinct (s @ xs) \<Longrightarrow> fold (\<lambda>x s. set_add s x) xs s = s @ xs"
  by (induction xs arbitrary: s) (auto simp: set_add_def)

lemma fold_set_add_snoc:
  "fold (\<lambda>x s. set_add s x) (set_add t y) s = set_add (fold (\<lambda>x s. set_add s x) t s) y"
proof (cases "y \<in> set t")
  case True
  then have "y \<in> set (fold (\<lambda>x s. set_add s x) t s)"
    by (simp add: set_fold_set_add)
  then have "set_add (fold (\<lambda>x s. set_add s x) t s) y = fold (\<lambda>x s. set_add s x) t s"
    unfolding set_add_def [of "fold (\<lambda>x s. set_add s x) t s" y] by simp
  moreover have "set_add t y = t"
    using True unfolding set_add_def [of t y] by simp
  ultimately show ?thesis by simp
next
  case False
  then have "set_add t y = t @ [y]"
    unfolding set_add_def [of t y] by simp
  then show ?thesis by simp
qed

lemma fold_set_add_new_Set:
  "fold (\<lambda>x s. set_add s x) (new_Set ys) s = fold (\<lambda>x s. set_add s x) ys s"
proof (induction ys rule: rev_induct)
  case Nil
  show ?case by (simp add: new_Set_def)
next
  case (snoc y ys)
  have "new_Set (ys @ [y]) = set_add (new_Set ys) y"
    by (simp add: new_Set_def)
  then show ?case
    using snoc by (simp add: fold_set_add_snoc)
qed

lemma new_Set_append_new_Set: "new_Set (new_Set xs @ new_Set ys) = new_Set (xs @ ys)"
proof -
  have "fold (\<lambda>x s. set_add s x) (new_Set xs) [] = new_Set xs"
    using fold_set_add_distinct [of "[]" "new_Set xs"] by (simp add: distinct_new_Set)
  then have "new_Set (new_Set xs @ new_Set ys) = fold (\<lambda>x s. set_add s x) (new_Set ys) (new_Set xs)"
    by (simp add: new_Set_def)
  also have "\<dots> = fold (\<lambda>x s. set_add s x) ys (new_Set xs)"
    by (rule fold_set_add_new_Set)
  also have "\<dots> = new_Set (xs @ ys)"
    by (simp add: new_Set_def)
  finally show ?thesis .
qed

subsection \<open>The stable sort\<close>

lemma insert_cmp_asc: "insert_cmp (\<lambda>a b. f a - f b) x ys = insort_key f x ys"
  by (induction ys) auto

lemma insert_cmp_desc: "insert_cmp (\<lambda>a b. f b - f a) x ys = insort_key (\<lambda>r. - f r) x ys"
  by (induction ys) auto

lemma js_sort_asc: "js_sort (\<lambda>a b. f a - f b) xs = sort_key f xs"
  by (induction xs) (simp_all add: js_sort_def insert_cmp_asc)

lemma js_sort_desc: "js_sort (\<lambda>a b. f b - f a) xs = sort_key (\<lambda>r. - f r) xs"
  by (induction xs) (simp_all add: js_sort_def insert_cmp_desc)

subsection \<open>Aggregation\<close>

lemma keys_byLA_loop:
  "keys (byLA_loop es w m) =
     fold (\<lambda>x s. set_add s x) (map la_or_unknown (filter (\<lambda>e. type e = w) es)) (keys m)"
  by (induction es arbitrary: m) (simp_all add: keys_map_set)

lemma keys_byLA:
  "keys (byLA items w) = new_Set (map la_or_unknown (filter (\<lambda>e. type e = w) items))"
  using keys_byLA_loop [of items w "[]"] by (simp add: byLA_def new_Set_def keys_def)

lemma distinct_keys_byLA: "distinct (keys (byLA items w))"
  by (simp add: keys_byLA distinct_new_Set)

lemma map_of_byLA_loop:
  "map_of (byLA_loop es w m) a =
     (if filter (\<lambda>e. type e = w \<and> la_or_unknown e = a) es = [] then map_of m a
      else Some (get_or0 m a + length (filter (\<lambda>e. type e = w \<and> la_or_unknown e = a) es)))"
  by (induction es arbitrary: m) (auto simp: map_of_map_set get_or0_map_set)

lemma map_of_byLA:
  "map_of (byLA items w) a =
     (if filter (\<lambda>e. type e = w \<and> la_or_unknown e = a) items = [] then None
      else Some (length (filter (\<lambda>e. type e = w \<and> la_or_unknown e = a) items)))"
  by (simp add: byLA_def map_of_byLA_loop get_or0_def map_get_def)

lemma get_or0_byLA:
  "get_or0 (byLA items w) a = length (filter (\<lambda>e. type e = w \<and> la_or_unknown e = a) items)"
  by (simp add: get_or0_def map_get_def map_of_byLA)

lemma byLA_determined:
  assumes "map_of (byLA xs w) = map_of (byLA ys w)"
  shows "set (byLA xs w) = set (byLA ys w)"
proof -
  have "\<And>zs. set (byLA zs w) = {(k, v). map_of (byLA zs w) k = Some v}"
    using distinct_keys_byLA by (auto simp: keys_def)
  then show ?thesis using assms by simp
qed

subsection \<open>Rows\<close>

lemma set_las: "set (las prev cur w) = set (keys (byLA prev w)) \<union> set (keys (byLA cur w))"
  by (simp add: las_def set_new_Set)

lemma distinct_las: "distinct (las prev cur w)"
  by (simp add: las_def distinct_new_Set)

lemma la_mk_row: "row.la (mk_row p c a) = a"
  by (simp add: mk_row_def)

lemma map_la_rows: "map row.la (rows prev cur w) = las prev cur w"
  by (simp add: rows_def comp_def la_mk_row)

lemma distinct_rows: "distinct (rows prev cur w)"
  using distinct_las [of prev cur w] map_la_rows [of prev cur w] distinct_map by metis

lemma rows_mk_row:
  "r \<in> set (rows prev cur w) \<Longrightarrow> r = mk_row (byLA prev w) (byLA cur w) (row.la r)"
  by (auto simp: rows_def la_mk_row)

lemma growth_sort_key:
  "growth (top10 prev cur w) =
     take 10 (sort_key (\<lambda>r. - delta r) (filter (\<lambda>r. 0 < delta r) (rows prev cur w)))"
  by (simp add: top10_def slice0_def js_sort_desc)

lemma reductions_sort_key:
  "reductions (top10 prev cur w) =
     take 10 (sort_key delta (filter (\<lambda>r. delta r < 0) (rows prev cur w)))"
  by (simp add: top10_def slice0_def js_sort_asc)

lemma sorted_wrt_desc: "sorted_wrt (\<lambda>x y. delta y \<le> delta x) (sort_key (\<lambda>r. - delta r) xs)"
proof -
  have "sorted (map (\<lambda>r. - delta r) (sort_key (\<lambda>r. - delta r) xs))"
    by (rule sorted_sort_key)
  then show ?thesis by (simp add: sorted_map)
qed

lemma sorted_wrt_asc: "sorted_wrt (\<lambda>x y. delta x \<le> delta y) (sort_key delta xs)"
proof -
  have "sorted (map delta (sort_key delta xs))"
    by (rule sorted_sort_key)
  then show ?thesis by (simp add: sorted_map)
qed

lemma growth_member:
  "x \<in> set (growth (top10 prev cur w)) \<Longrightarrow> x \<in> set (rows prev cur w) \<and> 0 < delta x"
proof -
  assume "x \<in> set (growth (top10 prev cur w))"
  then have "x \<in> set (sort_key (\<lambda>r. - delta r) (filter (\<lambda>r. 0 < delta r) (rows prev cur w)))"
    unfolding growth_sort_key by (rule in_set_takeD)
  then show ?thesis by simp
qed

lemma reductions_member:
  "x \<in> set (reductions (top10 prev cur w)) \<Longrightarrow> x \<in> set (rows prev cur w) \<and> delta x < 0"
proof -
  assume "x \<in> set (reductions (top10 prev cur w))"
  then have "x \<in> set (sort_key delta (filter (\<lambda>r. delta r < 0) (rows prev cur w)))"
    unfolding reductions_sort_key by (rule in_set_takeD)
  then show ?thesis by simp
qed

subsection \<open>Counting, relabelling and empty inputs\<close>

lemma la_or_unknown_alt:
  "la_or_unknown e =
     (if business.la e = None \<or> business.la e = Some [] then ''Unknown''
      else the (business.la e))"
  by (simp add: la_or_unknown_def split: option.splits)

lemma filter_empty_length: "(filter P xs = []) = (length (filter P xs) = 0)"
  by simp

lemma length_filter_mset: "mset xs = mset ys \<Longrightarrow> length (filter P xs) = length (filter P ys)"
proof -
  assume "mset xs = mset ys"
  then have "mset (filter P xs) = mset (filter P ys)"
    by (metis mset_filter)
  then show ?thesis by (rule mset_eq_length)
qed

lemma byLA_loop_map:
  assumes "\<And>e. type (f e) = type e" and "\<And>e. la_or_unknown (f e) = la_or_unknown e"
  shows "byLA_loop (map f es) w m = byLA_loop es w m"
  by (induction es arbitrary: m) (simp_all add: assms)

lemma byLA_map:
  assumes "\<And>e. type (f e) = type e" and "\<And>e. la_or_unknown (f e) = la_or_unknown e"
  shows "byLA (map f es) w = byLA es w"
  unfolding byLA_def using assms by (rule byLA_loop_map)

lemma top10_byLA_cong:
  assumes "byLA prev w = byLA prev' w" and "byLA cur w = byLA cur' w"
  shows "top10 prev cur w = top10 prev' cur' w"
  by (simp add: top10_def rows_def las_def assms)

lemma length_filter_disj:
  "(\<And>x. \<not> (P x \<and> Q x)) \<Longrightarrow>
   length (filter (\<lambda>x. P x \<or> Q x) xs) = length (filter P xs) + length (filter Q xs)"
  by (induction xs) auto

lemma byLA_Nil: "byLA [] w = []"
  by (simp add: byLA_def)

lemma get_or0_Nil: "get_or0 [] a = 0"
  by (simp add: get_or0_def map_get_def)

lemma js_sort_Nil: "js_sort cmp [] = []"
  by (simp add: js_sort_def)

lemma byLA_no_records: "filter (\<lambda>e. type e = w) items = [] \<Longrightarrow> byLA items w = []"
proof -
  assume "filter (\<lambda>e. type e = w) items = []"
  then have "keys (byLA items w) = []"
    by (simp add: keys_byLA new_Set_def)
  then show ?thesis by (simp add: keys_def)
qed

subsection \<open>The sorted lists: uniqueness, the rows they hold, ties\<close>

lemma sort_key_unique:
  fixes f :: "'a \<Rightarrow> int"
  assumes "distinct xs" "distinct ys" "set xs = set ys" "inj_on f (set xs)"
  shows "sort_key f xs = sort_key f ys"
proof -
  have "sorted (map f (sort_key f xs))" "sorted (map f (sort_key f ys))"
    by (rule sorted_sort_key)+
  moreover have "distinct (map f (sort_key f xs))" "distinct (map f (sort_key f ys))"
    using assms by (simp_all add: distinct_map)
  moreover have "set (map f (sort_key f xs)) = set (map f (sort_key f ys))"
    using assms(3) by simp
  ultimately have "map f (sort_key f xs) = map f (sort_key f ys)"
    using sorted_distinct_set_unique by blast
  moreover have "inj_on f (set (sort_key f xs) \<union> set (sort_key f ys))"
    using assms(3,4) by simp
  ultimately show ?thesis
    by (simp add: inj_on_map_eq_map)
qed

lemma get_or0_cong: "map_of m = map_of m' \<Longrightarrow> get_or0 m = get_or0 m'"
  by (simp add: get_or0_def map_get_def fun_eq_iff)

lemma set_keys_dom: "set (keys m) = dom (map_of m)"
  by (simp add: keys_def dom_map_of_conv_image_fst)

lemma set_rows:
  "set (rows prev cur w) =
     mk_row (byLA prev w) (byLA cur w) ` (dom (map_of (byLA prev w)) \<union> dom (map_of (byLA cur w)))"
  by (simp add: rows_def set_las set_keys_dom)

lemma sorted_wrt_take_drop:
  assumes "sorted_wrt R xs" "x \<in> set (take n xs)" "y \<in> set (drop n xs)"
  shows "R x y"
proof -
  have "sorted_wrt R (take n xs @ drop n xs)"
    using assms(1) by simp
  then show ?thesis
    unfolding sorted_wrt_append using assms(2,3) by blast
qed

lemma length_positive_rows:
  "length (filter (\<lambda>r. 0 < delta r) (rows prev cur w)) =
   length (filter (\<lambda>a. get_or0 (byLA prev w) a < get_or0 (byLA cur w) a) (las prev cur w))"
proof -
  have "(\<lambda>r. 0 < delta r) \<circ> mk_row (byLA prev w) (byLA cur w) =
        (\<lambda>a. get_or0 (byLA prev w) a < get_or0 (byLA cur w) a)"
    by (auto simp: mk_row_def fun_eq_iff)
  then show ?thesis
    by (simp add: rows_def filter_map)
qed

lemma set_positive_rows:
  "set (filter (\<lambda>r. 0 < delta r) (rows prev cur w)) =
     {\<lparr>row.la = a, delta = int (get_or0 (byLA cur w) a) - int (get_or0 (byLA prev w) a),
        current = get_or0 (byLA cur w) a\<rparr> | a.
      a \<in> dom (map_of (byLA prev w)) \<union> dom (map_of (byLA cur w)) \<and>
      0 < int (get_or0 (byLA cur w) a) - int (get_or0 (byLA prev w) a)}"
  unfolding set_filter set_rows by (auto simp: mk_row_def)

lemma set_negative_rows:
  "set (filter (\<lambda>r. delta r < 0) (rows prev cur w)) =
     {\<lparr>row.la = a, delta = int (get_or0 (byLA cur w) a) - int (get_or0 (byLA prev w) a),
        current = get_or0 (byLA cur w) a\<rparr> | a.
      a \<in> dom (map_of (byLA prev w)) \<union> dom (map_of (byLA cur w)) \<and>
      int (get_or0 (byLA cur w) a) - int (get_or0 (byLA prev w) a) < 0}"
  unfolding set_filter set_rows by (auto simp: mk_row_def)

lemma map_la_rows_first_occurrence:
  "map row.la (rows prev cur w) =
     new_Set (map la_or_unknown (filter (\<lambda>e. type e = w) prev) @
              map la_or_unknown (filter (\<lambda>e. type e = w) cur))"
  unfolding map_la_rows las_def keys_byLA by (rule new_Set_append_new_Set)

lemma filter_eq_pos:
  "0 < d \<Longrightarrow>
   filter (\<lambda>r. delta r = d) (filter (\<lambda>r. 0 < delta r) xs) = filter (\<lambda>r. delta r = (d::int)) xs"
  by (induction xs) auto

lemma filter_eq_neg:
  "d < 0 \<Longrightarrow>
   filter (\<lambda>r. delta r = d) (filter (\<lambda>r. delta r < 0) xs) = filter (\<lambda>r. delta r = (d::int)) xs"
  by (induction xs) auto

lemma sort_key_stable_neg:
  "filter (\<lambda>r. delta r = d) (sort_key (\<lambda>r. - delta r) xs) = filter (\<lambda>r. delta r = d) xs"
  using sort_key_stable [of "\<lambda>r. - delta r" "- d" xs] by simp

lemma growth_ties_prefix:
  "prefix (filter (\<lambda>r. delta r = d) (growth (top10 prev cur w)))
          (filter (\<lambda>r. delta r = d) (rows prev cur w))"
proof (cases "0 < d")
  case True
  let ?G = "sort_key (\<lambda>r. - delta r) (filter (\<lambda>r. 0 < delta r) (rows prev cur w))"
  have "prefix (filter (\<lambda>r. delta r = d) (take 10 ?G)) (filter (\<lambda>r. delta r = d) ?G)"
    by (rule filter_mono_prefix) (rule take_is_prefix)
  moreover have "filter (\<lambda>r. delta r = d) ?G = filter (\<lambda>r. delta r = d) (rows prev cur w)"
    unfolding sort_key_stable_neg using True by (rule filter_eq_pos)
  ultimately show ?thesis by (simp add: growth_sort_key)
next
  case False
  then have "filter (\<lambda>r. delta r = d) (growth (top10 prev cur w)) = []"
    unfolding filter_empty_conv using growth_member by fastforce
  then show ?thesis by simp
qed

lemma reductions_ties_prefix:
  "prefix (filter (\<lambda>r. delta r = d) (reductions (top10 prev cur w)))
          (filter (\<lambda>r. delta r = d) (rows prev cur w))"
proof (cases "d < 0")
  case True
  let ?R = "sort_key delta (filter (\<lambda>r. delta r < 0) (rows prev cur w))"
  have "prefix (filter (\<lambda>r. delta r = d) (take 10 ?R)) (filter (\<lambda>r. delta r = d) ?R)"
    by (rule filter_mono_prefix) (rule take_is_prefix)
  moreover have "filter (\<lambda>r. delta r = d) ?R = filter (\<lambda>r. delta r = d) (rows prev cur w)"
    unfolding sort_key_stable using True by (rule filter_eq_neg)
  ultimately show ?thesis by (simp add: reductions_sort_key)
next
  case False
  then have "filter (\<lambda>r. delta r = d) (reductions (top10 prev cur w)) = []"
    unfolding filter_empty_conv using reductions_member by fastforce
  then show ?thesis by simp
qed

lemma rows_set_cong:
  assumes "map_of (byLA prev w) = map_of (byLA prev' w)"
    and "map_of (byLA cur w) = map_of (byLA cur' w)"
  shows "set (rows prev cur w) = set (rows prev' cur' w)"
proof -
  have "mk_row (byLA prev w) (byLA cur w) = mk_row (byLA prev' w) (byLA cur' w)"
    using get_or0_cong [OF assms(1)] get_or0_cong [OF assms(2)]
    by (simp add: mk_row_def fun_eq_iff)
  then show ?thesis
    unfolding set_rows using assms by simp
qed

lemma filter_set_cong:
  "set xs = set ys \<Longrightarrow> set (filter P xs) = set (filter P ys)"
  by simp

section \<open>Aggregation and ranking: the properties\<close>

text \<open>
  C5. For every previous and current list of businesses and every sector, no authority
  name occurs both in the growth list and in the reductions list that \<^verbatim>\<open>top10\<close> returns.
\<close>

theorem growth_reductions_disjoint:
  "row.la ` set (growth (top10 prev cur w)) \<inter> row.la ` set (reductions (top10 prev cur w)) = {}"
proof -
  have False if g: "x \<in> set (growth (top10 prev cur w))"
    and r: "y \<in> set (reductions (top10 prev cur w))" and eq: "row.la x = row.la y" for x y
  proof -
    from g have x: "x \<in> set (rows prev cur w)" "0 < delta x"
      using growth_member by blast+
    from r have y: "y \<in> set (rows prev cur w)" "delta y < 0"
      using reductions_member by blast+
    have "x = y"
      using rows_mk_row [OF x(1)] rows_mk_row [OF y(1)] eq by simp
    with x(2) y(2) show False by simp
  qed
  then show ?thesis by blast
qed

text \<open>
  C7. For every list of businesses, every sector \<open>w\<close> and every authority name \<open>a\<close>,
  the map that \<^verbatim>\<open>byLA\<close> returns holds each key once, and under \<open>a\<close> it holds the number
  of businesses of sector \<open>w\<close> whose authority, with an empty or missing authority read
  as \<open>Unknown\<close>, is \<open>a\<close>, each occurrence counted; it has no entry for \<open>a\<close> when that
  number is zero. \<^verbatim>\<open>byLA\<close> has no throwing path, so the function is total and returns this
  map on every input.
\<close>

theorem byLA_exact_counts:
  "distinct (keys (byLA items w)) \<and>
   map_get (byLA items w) a =
     (let n = length (filter (\<lambda>e. type e = w \<and>
                (if business.la e = None \<or> business.la e = Some [] then ''Unknown''
                 else the (business.la e)) = a) items)
      in if n = 0 then None else Some n)"
proof -
  have "map_get (byLA items w) a =
     (let n = length (filter (\<lambda>e. type e = w \<and> la_or_unknown e = a) items)
      in if n = 0 then None else Some n)"
    unfolding map_get_def map_of_byLA filter_empty_length Let_def by simp
  then show ?thesis
    unfolding la_or_unknown_alt using distinct_keys_byLA by simp
qed

theorem byLA_exact_counts_witness:
  "map_get (byLA [\<lparr>id_b = ''1'', la = Some ''B'', type = MOBILE\<rparr>,
         \<lparr>id_b = ''2'', la = Some [], type = MOBILE\<rparr>,
         \<lparr>id_b = ''3'', la = None, type = MOBILE\<rparr>,
         \<lparr>id_b = ''4'', la = Some ''B'', type = PUB_BAR\<rparr>] MOBILE) ''Unknown'' = Some 2"
  using byLA_exact_counts [of "[\<lparr>id_b = ''1'', la = Some ''B'', type = MOBILE\<rparr>,
         \<lparr>id_b = ''2'', la = Some [], type = MOBILE\<rparr>,
         \<lparr>id_b = ''3'', la = None, type = MOBILE\<rparr>,
         \<lparr>id_b = ''4'', la = Some ''B'', type = PUB_BAR\<rparr>]" MOBILE "''Unknown''"]
  by (simp add: MOBILE_def PUB_BAR_def)

text \<open>
  C6. Two lists of businesses that are permutations of each other aggregate to the same
  table: \<^verbatim>\<open>byLA\<close> returns maps with the same keys and the same count under each key.
\<close>

theorem byLA_order_independent:
  assumes "mset items = mset items'"
  shows "map_of (byLA items w) = map_of (byLA items' w) \<and>
         set (byLA items w) = set (byLA items' w)"
proof -
  have m: "map_of (byLA items w) = map_of (byLA items' w)"
  proof
    fix a
    have "length (filter (\<lambda>e. type e = w \<and> la_or_unknown e = a) items) =
          length (filter (\<lambda>e. type e = w \<and> la_or_unknown e = a) items')"
      using assms by (rule length_filter_mset)
    then show "map_of (byLA items w) a = map_of (byLA items' w) a"
      unfolding map_of_byLA filter_empty_length by simp
  qed
  with byLA_determined show ?thesis by blast
qed

theorem byLA_order_independent_witness:
  "mset [\<lparr>id_b = ''1'', la = Some ''B'', type = MOBILE\<rparr>,
         \<lparr>id_b = ''2'', la = Some ''A'', type = MOBILE\<rparr>,
         \<lparr>id_b = ''3'', la = None, type = MOBILE\<rparr>] =
   mset [\<lparr>id_b = ''3'', la = None, type = MOBILE\<rparr>,
         \<lparr>id_b = ''2'', la = Some ''A'', type = MOBILE\<rparr>,
         \<lparr>id_b = ''1'', la = Some ''B'', type = MOBILE\<rparr>] \<and>
   set (byLA [\<lparr>id_b = ''1'', la = Some ''B'', type = MOBILE\<rparr>,
         \<lparr>id_b = ''2'', la = Some ''A'', type = MOBILE\<rparr>,
         \<lparr>id_b = ''3'', la = None, type = MOBILE\<rparr>] MOBILE) =
   set (byLA [\<lparr>id_b = ''3'', la = None, type = MOBILE\<rparr>,
         \<lparr>id_b = ''2'', la = Some ''A'', type = MOBILE\<rparr>,
         \<lparr>id_b = ''1'', la = Some ''B'', type = MOBILE\<rparr>] MOBILE)"
proof -
  have h: "mset [\<lparr>id_b = ''1'', la = Some ''B'', type = MOBILE\<rparr>,
         \<lparr>id_b = ''2'', la = Some ''A'', type = MOBILE\<rparr>,
         \<lparr>id_b = ''3'', la = None, type = MOBILE\<rparr>] =
   mset [\<lparr>id_b = ''3'', la = None, type = MOBILE\<rparr>,
         \<lparr>id_b = ''2'', la = Some ''A'', type = MOBILE\<rparr>,
         \<lparr>id_b = ''1'', la = Some ''B'', type = MOBILE\<rparr>]"
    by simp
  from byLA_order_independent [OF h, of MOBILE] h show ?thesis by blast
qed

text \<open>
  C10. Businesses of a sector whose authority is empty or missing and businesses whose
  authority is the string \<open>Unknown\<close> share one bucket: the count under \<open>Unknown\<close> is the
  number of the former plus the number of the latter. Writing \<open>Unknown\<close> into every empty
  or missing authority changes neither the map of \<^verbatim>\<open>byLA\<close> nor the result of \<^verbatim>\<open>top10\<close>, so
  no count, delta or ranking row tells the two apart.
\<close>

theorem unknown_bucket_merged:
  "get_or0 (byLA items w) ''Unknown'' =
     length (filter (\<lambda>e. type e = w \<and> (business.la e = None \<or> business.la e = Some [])) items) +
     length (filter (\<lambda>e. type e = w \<and> business.la e = Some ''Unknown'') items) \<and>
   byLA (map (\<lambda>e. if business.la e = None \<or> business.la e = Some []
                   then e\<lparr>business.la := Some ''Unknown''\<rparr> else e) items) w = byLA items w \<and>
   top10 (map (\<lambda>e. if business.la e = None \<or> business.la e = Some []
                   then e\<lparr>business.la := Some ''Unknown''\<rparr> else e) prev)
         (map (\<lambda>e. if business.la e = None \<or> business.la e = Some []
                   then e\<lparr>business.la := Some ''Unknown''\<rparr> else e) cur) w =
     top10 prev cur w"
proof -
  let ?f = "\<lambda>e. if business.la e = None \<or> business.la e = Some []
                 then e\<lparr>business.la := Some ''Unknown''\<rparr> else e"
  have t: "\<And>e. type (?f e) = type e" by simp
  have l: "\<And>e. la_or_unknown (?f e) = la_or_unknown e"
    by (simp add: la_or_unknown_def)
  have b: "\<And>xs. byLA (map ?f xs) w = byLA xs w"
    using t l by (rule byLA_map)
  have e: "(\<lambda>e. type e = w \<and> la_or_unknown e = ''Unknown'') =
        (\<lambda>e. (type e = w \<and> (business.la e = None \<or> business.la e = Some [])) \<or>
              (type e = w \<and> business.la e = Some ''Unknown''))"
    by (auto simp: la_or_unknown_def fun_eq_iff split: option.splits)
  have "length (filter (\<lambda>e. (type e = w \<and> (business.la e = None \<or> business.la e = Some [])) \<or>
              (type e = w \<and> business.la e = Some ''Unknown'')) items) =
     length (filter (\<lambda>e. type e = w \<and> (business.la e = None \<or> business.la e = Some [])) items) +
     length (filter (\<lambda>e. type e = w \<and> business.la e = Some ''Unknown'') items)"
    by (rule length_filter_disj) auto
  then have c: "get_or0 (byLA items w) ''Unknown'' =
     length (filter (\<lambda>e. type e = w \<and> (business.la e = None \<or> business.la e = Some [])) items) +
     length (filter (\<lambda>e. type e = w \<and> business.la e = Some ''Unknown'') items)"
    unfolding get_or0_byLA e .
  have "top10 (map ?f prev) (map ?f cur) w = top10 prev cur w"
    by (rule top10_byLA_cong) (rule b)+
  with b c show ?thesis by blast
qed

text \<open>
  C8. When reading or parsing the last snapshot throws, \<^verbatim>\<open>readJSONSafe\<close> returns the
  fallback \<^verbatim>\<open>[]\<close> instead of failing: the previous table is empty, every sector is ranked
  against the empty list, every row has its current count as delta, and no ranking has a
  reduction.
\<close>

theorem missing_previous_is_empty:
  "readJSONSafe (Inl err) [] = ([] :: business list) \<and>
   byLA (readJSONSafe (Inl err) []) w = [] \<and>
   by_sector (Inl err) cur = map (\<lambda>(key, label). (key, top10 [] cur label)) SECTORS \<and>
   map delta (rows (readJSONSafe (Inl err) []) cur w) =
     map (\<lambda>r. int (current r)) (rows (readJSONSafe (Inl err) []) cur w) \<and>
   reductions (top10 (readJSONSafe (Inl err) []) cur w) = []"
proof -
  have r: "readJSONSafe (Inl err) [] = ([] :: business list)"
    by (simp add: readJSONSafe_def)
  have d: "map delta (rows [] cur w) = map (\<lambda>r. int (current r)) (rows [] cur w)"
    by (simp add: rows_def mk_row_def byLA_Nil get_or0_Nil)
  then have "filter (\<lambda>r. delta r < 0) (rows [] cur w) = []"
    by (simp add: rows_def mk_row_def byLA_Nil get_or0_Nil filter_empty_conv)
  then have "reductions (top10 [] cur w) = []"
    by (simp add: top10_def js_sort_Nil slice0_def)
  with r d show ?thesis
    by (simp add: by_sector_def byLA_Nil)
qed

text \<open>
  C9. If the previous businesses aggregate, for the sector \<open>Pub/bar/nightclub\<close>, to the
  single entry \<open>Y\<close> with count 4 and the current businesses hold no record of that
  sector, then the ranking of the sector has no growth and the single reduction
  \<^verbatim>\<open>{ la: "Y", delta: -4, current: 0 }\<close>.
\<close>

theorem disappeared_authority:
  assumes "byLA prev PUB_BAR = [(''Y'', 4)]"
    and "filter (\<lambda>e. type e = PUB_BAR) cur = []"
  shows "top10 prev cur PUB_BAR =
           \<lparr>growth = [], reductions = [\<lparr>row.la = ''Y'', delta = - 4, current = 0\<rparr>]\<rparr>"
proof -
  have c: "byLA cur PUB_BAR = []"
    using assms(2) by (rule byLA_no_records)
  show ?thesis
    by (simp add: top10_def rows_def las_def assms(1) c keys_def new_Set_def set_add_def
        mk_row_def get_or0_def map_get_def js_sort_def slice0_def)
qed

theorem disappeared_authority_witness:
  "top10 [\<lparr>id_b = ''11'', la = Some ''Y'', type = PUB_BAR\<rparr>,
          \<lparr>id_b = ''12'', la = Some ''Y'', type = PUB_BAR\<rparr>,
          \<lparr>id_b = ''13'', la = Some ''X'', type = MOBILE\<rparr>,
          \<lparr>id_b = ''14'', la = Some ''Y'', type = PUB_BAR\<rparr>,
          \<lparr>id_b = ''15'', la = Some ''Y'', type = PUB_BAR\<rparr>]
         [\<lparr>id_b = ''13'', la = Some ''X'', type = MOBILE\<rparr>,
          \<lparr>id_b = ''16'', la = Some ''Y'', type = TAKEAWAY\<rparr>] PUB_BAR =
     \<lparr>growth = [], reductions = [\<lparr>row.la = ''Y'', delta = - 4, current = 0\<rparr>]\<rparr>"
proof -
  have p: "byLA [\<lparr>id_b = ''11'', la = Some ''Y'', type = PUB_BAR\<rparr>,
          \<lparr>id_b = ''12'', la = Some ''Y'', type = PUB_BAR\<rparr>,
          \<lparr>id_b = ''13'', la = Some ''X'', type = MOBILE\<rparr>,
          \<lparr>id_b = ''14'', la = Some ''Y'', type = PUB_BAR\<rparr>,
          \<lparr>id_b = ''15'', la = Some ''Y'', type = PUB_BAR\<rparr>] PUB_BAR = [(''Y'', 4)]"
    by (simp add: byLA_def la_or_unknown_def get_or0_def map_get_def PUB_BAR_def MOBILE_def)
  have c: "filter (\<lambda>e. type e = PUB_BAR)
         [\<lparr>id_b = ''13'', la = Some ''X'', type = MOBILE\<rparr>,
          \<lparr>id_b = ''16'', la = Some ''Y'', type = TAKEAWAY\<rparr>] = []"
    by (simp add: PUB_BAR_def MOBILE_def TAKEAWAY_def)
  from disappeared_authority [OF p c] show ?thesis .
qed

text \<open>
  C4. Each list that \<^verbatim>\<open>top10\<close> returns has at most 10 rows. When more than 10 authorities
  have a positive delta, the growth list has exactly 10 rows and they carry the largest
  deltas: no row left out of the list has a larger delta than a row in it.
\<close>

theorem top10_at_most_ten:
  "length (growth (top10 prev cur w)) \<le> 10 \<and>
   length (reductions (top10 prev cur w)) \<le> 10 \<and>
   (10 < length (filter (\<lambda>a. get_or0 (byLA prev w) a < get_or0 (byLA cur w) a)
                   (las prev cur w)) \<longrightarrow>
      length (growth (top10 prev cur w)) = 10 \<and>
      (\<forall>r \<in> set (growth (top10 prev cur w)). \<forall>r' \<in> set (rows prev cur w).
         r' \<notin> set (growth (top10 prev cur w)) \<longrightarrow> delta r' \<le> delta r))"
proof -
  let ?G = "sort_key (\<lambda>r. - delta r) (filter (\<lambda>r. 0 < delta r) (rows prev cur w))"
  have g: "growth (top10 prev cur w) = take 10 ?G"
    by (rule growth_sort_key)
  have len: "length (growth (top10 prev cur w)) \<le> 10"
    "length (reductions (top10 prev cur w)) \<le> 10"
    by (simp_all add: growth_sort_key reductions_sort_key)
  have ten: "length (growth (top10 prev cur w)) = 10"
    if "10 < length (filter (\<lambda>a. get_or0 (byLA prev w) a < get_or0 (byLA cur w) a)
                       (las prev cur w))"
    using that by (simp add: g length_positive_rows)
  have top: "delta r' \<le> delta r"
    if r: "r \<in> set (growth (top10 prev cur w))" and r': "r' \<in> set (rows prev cur w)"
      and out: "r' \<notin> set (growth (top10 prev cur w))" for r r'
  proof (cases "0 < delta r'")
    case True
    with r' have "r' \<in> set ?G" by simp
    then have "r' \<in> set (take 10 ?G) \<or> r' \<in> set (drop 10 ?G)"
      using set_append [of "take 10 ?G" "drop 10 ?G"] by auto
    with out g have "r' \<in> set (drop 10 ?G)" by simp
    moreover from r g have "r \<in> set (take 10 ?G)" by simp
    ultimately show ?thesis
      using sorted_wrt_take_drop [OF sorted_wrt_desc] by blast
  next
    case False
    moreover from r have "0 < delta r" using growth_member by blast
    ultimately show ?thesis by simp
  qed
  from len ten top show ?thesis by blast
qed

theorem top10_at_most_ten_witness:
  "10 < length (filter (\<lambda>a. get_or0 (byLA [] MOBILE) a < get_or0 (byLA (map (\<lambda>a. \<lparr>id_b = a, la = Some a, type = MOBILE\<rparr>)
        [''Leeds'', ''Leeds'', ''York'', ''Bath'', ''Derby'', ''Luton'', ''Bury'', ''Wirral'',
         ''Dover'', ''Fife'', ''Moray'', ''Wigan'']) MOBILE) a)
                  (las [] (map (\<lambda>a. \<lparr>id_b = a, la = Some a, type = MOBILE\<rparr>)
        [''Leeds'', ''Leeds'', ''York'', ''Bath'', ''Derby'', ''Luton'', ''Bury'', ''Wirral'',
         ''Dover'', ''Fife'', ''Moray'', ''Wigan'']) MOBILE)) \<and>
   length (growth (top10 [] (map (\<lambda>a. \<lparr>id_b = a, la = Some a, type = MOBILE\<rparr>)
        [''Leeds'', ''Leeds'', ''York'', ''Bath'', ''Derby'', ''Luton'', ''Bury'', ''Wirral'',
         ''Dover'', ''Fife'', ''Moray'', ''Wigan'']) MOBILE)) = 10"
proof -
  have h: "10 < length (filter (\<lambda>a. get_or0 (byLA [] MOBILE) a < get_or0 (byLA (map (\<lambda>a. \<lparr>id_b = a, la = Some a, type = MOBILE\<rparr>)
        [''Leeds'', ''Leeds'', ''York'', ''Bath'', ''Derby'', ''Luton'', ''Bury'', ''Wirral'',
         ''Dover'', ''Fife'', ''Moray'', ''Wigan'']) MOBILE) a)
                  (las [] (map (\<lambda>a. \<lparr>id_b = a, la = Some a, type = MOBILE\<rparr>)
        [''Leeds'', ''Leeds'', ''York'', ''Bath'', ''Derby'', ''Luton'', ''Bury'', ''Wirral'',
         ''Dover'', ''Fife'', ''Moray'', ''Wigan'']) MOBILE))"
    by (simp add: top10_def rows_def las_def byLA_def new_Set_def set_add_def keys_def get_or0_def
        map_get_def mk_row_def js_sort_def slice0_def la_or_unknown_def MOBILE_def)
  with top10_at_most_ten [of "[]" "(map (\<lambda>a. \<lparr>id_b = a, la = Some a, type = MOBILE\<rparr>)
        [''Leeds'', ''Leeds'', ''York'', ''Bath'', ''Derby'', ''Luton'', ''Bury'', ''Wirral'',
         ''Dover'', ''Fife'', ''Moray'', ''Wigan''])" MOBILE] show ?thesis by blast
qed

text \<open>
  C1, as stated, asks for every authority with a positive delta in the growth list. With
  eleven such authorities \<^verbatim>\<open>slice(0, 10)\<close> leaves one out: \<open>Wigan\<close> is a key of the current
  table, has delta 1 and is in no growth row.
\<close>

theorem growth_not_all_positive_counterexample:
  "''Wigan'' \<in> set (keys (byLA (map (\<lambda>a. \<lparr>id_b = a, la = Some a, type = MOBILE\<rparr>)
        [''Leeds'', ''Leeds'', ''York'', ''Bath'', ''Derby'', ''Luton'', ''Bury'', ''Wirral'',
         ''Dover'', ''Fife'', ''Moray'', ''Wigan'']) MOBILE)) \<and>
   int (get_or0 (byLA (map (\<lambda>a. \<lparr>id_b = a, la = Some a, type = MOBILE\<rparr>)
        [''Leeds'', ''Leeds'', ''York'', ''Bath'', ''Derby'', ''Luton'', ''Bury'', ''Wirral'',
         ''Dover'', ''Fife'', ''Moray'', ''Wigan'']) MOBILE) ''Wigan'') -
     int (get_or0 (byLA [] MOBILE) ''Wigan'') = 1 \<and>
   ''Wigan'' \<notin> row.la ` set (growth (top10 [] (map (\<lambda>a. \<lparr>id_b = a, la = Some a, type = MOBILE\<rparr>)
        [''Leeds'', ''Leeds'', ''York'', ''Bath'', ''Derby'', ''Luton'', ''Bury'', ''Wirral'',
         ''Dover'', ''Fife'', ''Moray'', ''Wigan'']) MOBILE))"
  by (simp add: top10_def rows_def las_def byLA_def new_Set_def set_add_def keys_def get_or0_def
        map_get_def mk_row_def js_sort_def slice0_def la_or_unknown_def MOBILE_def)

text \<open>
  C1, amended. \<^verbatim>\<open>top10\<close> forms the union of the authority names of the two tables and
  gives each the delta current count minus previous count, a missing count being 0. The
  growth list is the first 10 entries of a list \<open>G\<close> that holds exactly the rows of the
  authorities with a positive delta, each once, sorted descending by delta; the reductions
  list is the first 10 entries of a list \<open>R\<close> that holds exactly the rows of the
  authorities with a negative delta, each once, sorted ascending by delta. An authority
  with delta zero is in neither.
\<close>

theorem top10_partition_sorted:
  "\<exists>G R.
     growth (top10 prev cur w) = take 10 G \<and>
     reductions (top10 prev cur w) = take 10 R \<and>
     distinct G \<and> distinct R \<and>
     set G =
       {\<lparr>row.la = a, delta = int (get_or0 (byLA cur w) a) - int (get_or0 (byLA prev w) a),
          current = get_or0 (byLA cur w) a\<rparr> | a.
        a \<in> dom (map_of (byLA prev w)) \<union> dom (map_of (byLA cur w)) \<and>
        0 < int (get_or0 (byLA cur w) a) - int (get_or0 (byLA prev w) a)} \<and>
     set R =
       {\<lparr>row.la = a, delta = int (get_or0 (byLA cur w) a) - int (get_or0 (byLA prev w) a),
          current = get_or0 (byLA cur w) a\<rparr> | a.
        a \<in> dom (map_of (byLA prev w)) \<union> dom (map_of (byLA cur w)) \<and>
        int (get_or0 (byLA cur w) a) - int (get_or0 (byLA prev w) a) < 0} \<and>
     sorted_wrt (\<lambda>x y. delta y \<le> delta x) G \<and>
     sorted_wrt (\<lambda>x y. delta x \<le> delta y) R"
proof -
  let ?G = "sort_key (\<lambda>r. - delta r) (filter (\<lambda>r. 0 < delta r) (rows prev cur w))"
  let ?R = "sort_key delta (filter (\<lambda>r. delta r < 0) (rows prev cur w))"
  have "growth (top10 prev cur w) = take 10 ?G"
    by (rule growth_sort_key)
  moreover have "reductions (top10 prev cur w) = take 10 ?R"
    by (rule reductions_sort_key)
  moreover have "distinct ?G" "distinct ?R"
    using distinct_rows by simp_all
  moreover have "set ?G =
       {\<lparr>row.la = a, delta = int (get_or0 (byLA cur w) a) - int (get_or0 (byLA prev w) a),
          current = get_or0 (byLA cur w) a\<rparr> | a.
        a \<in> dom (map_of (byLA prev w)) \<union> dom (map_of (byLA cur w)) \<and>
        0 < int (get_or0 (byLA cur w) a) - int (get_or0 (byLA prev w) a)}"
    unfolding set_sort by (rule set_positive_rows)
  moreover have "set ?R =
       {\<lparr>row.la = a, delta = int (get_or0 (byLA cur w) a) - int (get_or0 (byLA prev w) a),
          current = get_or0 (byLA cur w) a\<rparr> | a.
        a \<in> dom (map_of (byLA prev w)) \<union> dom (map_of (byLA cur w)) \<and>
        int (get_or0 (byLA cur w) a) - int (get_or0 (byLA prev w) a) < 0}"
    unfolding set_sort by (rule set_negative_rows)
  moreover have "sorted_wrt (\<lambda>x y. delta y \<le> delta x) ?G"
    by (rule sorted_wrt_desc)
  moreover have "sorted_wrt (\<lambda>x y. delta x \<le> delta y) ?R"
    by (rule sorted_wrt_asc)
  ultimately show ?thesis by blast
qed

text \<open>
  C3, as stated, asks for rows of equal delta in ascending order of the authority name.
  The comparators of \<^verbatim>\<open>top10\<close> look at the delta only: with \<open>B\<close> read before \<open>A\<close> and
  both at delta 1, \<open>B\<close> comes first although \<open>A\<close> is the smaller name.
\<close>

theorem ties_not_by_name_counterexample:
  "growth (top10 [] [\<lparr>id_b = ''1'', la = Some ''B'', type = MOBILE\<rparr>,
                     \<lparr>id_b = ''2'', la = Some ''A'', type = MOBILE\<rparr>] MOBILE) =
     [\<lparr>row.la = ''B'', delta = 1, current = 1\<rparr>,
      \<lparr>row.la = ''A'', delta = 1, current = 1\<rparr>] \<and>
   (''A'' :: string) < ''B''"
  by (simp add: top10_def rows_def las_def byLA_def new_Set_def set_add_def keys_def get_or0_def
        map_get_def mk_row_def js_sort_def slice0_def la_or_unknown_def MOBILE_def)

text \<open>
  C3, amended. Rows of equal delta appear in a ranking list in the order of \<^verbatim>\<open>rows\<close>: for
  every delta \<open>d\<close>, the rows of a list with that delta are an initial part of the rows of
  \<^verbatim>\<open>rows\<close> with that delta. The order of \<^verbatim>\<open>rows\<close> is the order in which the authorities
  first occur among the businesses of the sector, the previous ones before the current
  ones.
\<close>

theorem ties_in_first_occurrence_order:
  "prefix (filter (\<lambda>r. delta r = d) (growth (top10 prev cur w)))
          (filter (\<lambda>r. delta r = d) (rows prev cur w)) \<and>
   prefix (filter (\<lambda>r. delta r = d) (reductions (top10 prev cur w)))
          (filter (\<lambda>r. delta r = d) (rows prev cur w)) \<and>
   map row.la (rows prev cur w) =
     new_Set (map la_or_unknown (filter (\<lambda>e. type e = w) prev) @
              map la_or_unknown (filter (\<lambda>e. type e = w) cur))"
  using growth_ties_prefix reductions_ties_prefix map_la_rows_first_occurrence by blast

text \<open>
  C2, as stated, asks for the same ranking from any two inputs with the same tables.
  The lists \<open>[B, A]\<close> and \<open>[A, B]\<close> are permutations of each other and aggregate to the
  same table, and their rankings differ in the order of the two tied rows.
\<close>

theorem top10_record_order_counterexample:
  "mset
     [\<lparr>id_b = ''1'', la = Some ''B'', type = MOBILE\<rparr>,
      \<lparr>id_b = ''2'', la = Some ''A'', type = MOBILE\<rparr>] =
   mset
     [\<lparr>id_b = ''2'', la = Some ''A'', type = MOBILE\<rparr>,
      \<lparr>id_b = ''1'', la = Some ''B'', type = MOBILE\<rparr>] \<and>
   map_of (byLA
     [\<lparr>id_b = ''1'', la = Some ''B'', type = MOBILE\<rparr>,
      \<lparr>id_b = ''2'', la = Some ''A'', type = MOBILE\<rparr>] MOBILE) =
   map_of (byLA
     [\<lparr>id_b = ''2'', la = Some ''A'', type = MOBILE\<rparr>,
      \<lparr>id_b = ''1'', la = Some ''B'', type = MOBILE\<rparr>] MOBILE) \<and>
   top10 []
     [\<lparr>id_b = ''1'', la = Some ''B'', type = MOBILE\<rparr>,
      \<lparr>id_b = ''2'', la = Some ''A'', type = MOBILE\<rparr>] MOBILE \<noteq>
   top10 []
     [\<lparr>id_b = ''2'', la = Some ''A'', type = MOBILE\<rparr>,
      \<lparr>id_b = ''1'', la = Some ''B'', type = MOBILE\<rparr>] MOBILE"
proof -
  have "map_of (byLA
     [\<lparr>id_b = ''1'', la = Some ''B'', type = MOBILE\<rparr>,
      \<lparr>id_b = ''2'', la = Some ''A'', type = MOBILE\<rparr>] MOBILE) =
   map_of (byLA
     [\<lparr>id_b = ''2'', la = Some ''A'', type = MOBILE\<rparr>,
      \<lparr>id_b = ''1'', la = Some ''B'', type = MOBILE\<rparr>] MOBILE)"
    by (rule ext) (simp add: byLA_def get_or0_def map_get_def la_or_unknown_def MOBILE_def)
  moreover have "top10 []
     [\<lparr>id_b = ''1'', la = Some ''B'', type = MOBILE\<rparr>,
      \<lparr>id_b = ''2'', la = Some ''A'', type = MOBILE\<rparr>] MOBILE \<noteq>
   top10 []
     [\<lparr>id_b = ''2'', la = Some ''A'', type = MOBILE\<rparr>,
      \<lparr>id_b = ''1'', la = Some ''B'', type = MOBILE\<rparr>] MOBILE"
    by (simp add: top10_def rows_def las_def byLA_def new_Set_def set_add_def keys_def get_or0_def
        map_get_def mk_row_def js_sort_def slice0_def la_or_unknown_def MOBILE_def)
  ultimately show ?thesis by simp
qed

text \<open>
  C2, amended. If two inputs have the same previous table and the same current table for
  a sector, and no two authorities of the sector share a delta other than zero, then
  \<^verbatim>\<open>top10\<close> returns the same ranking for both.
\<close>

theorem top10_determined_without_ties:
  assumes "map_of (byLA prev w) = map_of (byLA prev' w)"
    and "map_of (byLA cur w) = map_of (byLA cur' w)"
    and "distinct (map delta (filter (\<lambda>r. delta r \<noteq> 0) (rows prev cur w)))"
  shows "top10 prev cur w = top10 prev' cur' w"
proof -
  have s: "set (rows prev cur w) = set (rows prev' cur' w)"
    using assms(1,2) by (rule rows_set_cong)
  have inj: "inj_on delta (set (filter (\<lambda>r. delta r \<noteq> 0) (rows prev cur w)))"
    using assms(3) by (simp add: distinct_map)
  have injp: "inj_on (\<lambda>r. - delta r) (set (filter (\<lambda>r. 0 < delta r) (rows prev cur w)))"
    using inj by (auto simp: inj_on_def)
  have injn: "inj_on delta (set (filter (\<lambda>r. delta r < 0) (rows prev cur w)))"
    using inj by (auto simp: inj_on_def)
  have dp: "distinct (filter (\<lambda>r. 0 < delta r) (rows prev cur w))"
    "distinct (filter (\<lambda>r. 0 < delta r) (rows prev' cur' w))"
    "distinct (filter (\<lambda>r. delta r < 0) (rows prev cur w))"
    "distinct (filter (\<lambda>r. delta r < 0) (rows prev' cur' w))"
    using distinct_rows by simp_all
  have g: "sort_key (\<lambda>r. - delta r) (filter (\<lambda>r. 0 < delta r) (rows prev cur w)) =
           sort_key (\<lambda>r. - delta r) (filter (\<lambda>r. 0 < delta r) (rows prev' cur' w))"
    using dp(1,2) filter_set_cong [OF s] injp by (rule sort_key_unique)
  have r: "sort_key delta (filter (\<lambda>r. delta r < 0) (rows prev cur w)) =
           sort_key delta (filter (\<lambda>r. delta r < 0) (rows prev' cur' w))"
    using dp(3,4) filter_set_cong [OF s] injn by (rule sort_key_unique)
  have "growth (top10 prev cur w) = growth (top10 prev' cur' w)"
    unfolding growth_sort_key g ..
  moreover have "reductions (top10 prev cur w) = reductions (top10 prev' cur' w)"
    unfolding reductions_sort_key r ..
  ultimately show ?thesis by simp
qed

theorem top10_determined_without_ties_witness:
  "top10 []
     [\<lparr>id_b = ''1'', la = Some ''B'', type = MOBILE\<rparr>,
      \<lparr>id_b = ''2'', la = Some ''A'', type = MOBILE\<rparr>,
      \<lparr>id_b = ''3'', la = Some ''A'', type = MOBILE\<rparr>] MOBILE =
   top10 []
     [\<lparr>id_b = ''2'', la = Some ''A'', type = MOBILE\<rparr>,
      \<lparr>id_b = ''1'', la = Some ''B'', type = MOBILE\<rparr>,
      \<lparr>id_b = ''3'', la = Some ''A'', type = MOBILE\<rparr>] MOBILE"
proof -
  have p: "map_of (byLA [] MOBILE) = map_of (byLA [] MOBILE)" ..
  have c: "map_of (byLA
     [\<lparr>id_b = ''1'', la = Some ''B'', type = MOBILE\<rparr>,
      \<lparr>id_b = ''2'', la = Some ''A'', type = MOBILE\<rparr>,
      \<lparr>id_b = ''3'', la = Some ''A'', type = MOBILE\<rparr>] MOBILE) =
   map_of (byLA
     [\<lparr>id_b = ''2'', la = Some ''A'', type = MOBILE\<rparr>,
      \<lparr>id_b = ''1'', la = Some ''B'', type = MOBILE\<rparr>,
      \<lparr>id_b = ''3'', la = Some ''A'', type = MOBILE\<rparr>] MOBILE)"
    by (rule ext) (simp add: byLA_def get_or0_def map_get_def la_or_unknown_def MOBILE_def)
  have d: "distinct (map delta (filter (\<lambda>r. delta r \<noteq> 0) (rows []
     [\<lparr>id_b = ''1'', la = Some ''B'', type = MOBILE\<rparr>,
      \<lparr>id_b = ''2'', la = Some ''A'', type = MOBILE\<rparr>,
      \<lparr>id_b = ''3'', la = Some ''A'', type = MOBILE\<rparr>] MOBILE)))"
    by (simp add: top10_def rows_def las_def byLA_def new_Set_def set_add_def keys_def get_or0_def
        map_get_def mk_row_def js_sort_def slice0_def la_or_unknown_def MOBILE_def)
  from top10_determined_without_ties [OF p c d] show ?thesis .
qed

end
